theory Spec2Isabelle
  imports Main
begin

section \<open>Text\<close>

text \<open>
  A Python \<open>str\<close> is a sequence of code points and \<open>len\<close> counts them. Here a
  \<^typ>\<open>char\<close> stands for one code point, so the development covers text whose code
  points are below 256. The character classes are those of Python's Unicode database
  on that range: \<open>str.isspace\<close> (which is also what \<open>\s\<close> matches in a \<open>str\<close>
  pattern and what \<open>str.strip()\<close> removes), \<open>str.isalpha\<close>, and the per-character
  lower/upper tests behind \<open>str.islower\<close> and \<open>str.isupper\<close>.
\<close>

definition ord :: "char \<Rightarrow> nat" where
  "ord c = of_char c"

definition isspace :: "char \<Rightarrow> bool" where
  "isspace c = ((9 \<le> ord c \<and> ord c \<le> 13) \<or> (28 \<le> ord c \<and> ord c \<le> 32)
                 \<or> ord c = 133 \<or> ord c = 160)"

definition ch_islower :: "char \<Rightarrow> bool" where
  "ch_islower c = ((97 \<le> ord c \<and> ord c \<le> 122) \<or> ord c = 170 \<or> ord c = 181
                    \<or> ord c = 186 \<or> (223 \<le> ord c \<and> ord c \<le> 246) \<or> 248 \<le> ord c)"

definition ch_isupper :: "char \<Rightarrow> bool" where
  "ch_isupper c = ((65 \<le> ord c \<and> ord c \<le> 90) \<or> (192 \<le> ord c \<and> ord c \<le> 214)
                    \<or> (216 \<le> ord c \<and> ord c \<le> 222))"

definition isalpha :: "char \<Rightarrow> bool" where
  "isalpha c = ((65 \<le> ord c \<and> ord c \<le> 90) \<or> (97 \<le> ord c \<and> ord c \<le> 122)
                 \<or> ord c = 170 \<or> ord c = 181 \<or> ord c = 186
                 \<or> (192 \<le> ord c \<and> ord c \<le> 214) \<or> (216 \<le> ord c \<and> ord c \<le> 246)
                 \<or> 248 \<le> ord c)"

text \<open>
  \<open>s.islower()\<close>: no character of \<open>s\<close> is uppercase (or titlecase; there is no
  titlecase letter below 256) and at least one is lowercase.
\<close>

definition str_islower :: "string \<Rightarrow> bool" where
  "str_islower s = (list_all (\<lambda>c. \<not> ch_isupper c) s \<and> list_ex ch_islower s)"

text \<open>\<open>s.strip()\<close> removes the whitespace at both ends.\<close>

definition str_strip :: "string \<Rightarrow> string" where
  "str_strip s = rev (dropWhile isspace (rev (dropWhile isspace s)))"

text \<open>
  \<open>s.replace(old, new)\<close> replaces the occurrences of \<open>old\<close> from left to right
  without overlap; an empty \<open>old\<close> matches before every character and at the end.
\<close>

fun replace_from :: "string \<Rightarrow> string \<Rightarrow> string \<Rightarrow> string" where
  "replace_from old new [] = []"
| "replace_from old new (c # cs) =
     (if take (length old) (c # cs) = old
      then new @ replace_from old new (drop (length old - 1) cs)
      else c # replace_from old new cs)"

definition str_replace :: "string \<Rightarrow> string \<Rightarrow> string \<Rightarrow> string" where
  "str_replace s old new =
     (if old = [] then new @ concat (map (\<lambda>c. c # new) s) else replace_from old new s)"

text \<open>\<open>value or ""\<close>: \<open>None\<close> and the empty string both give the empty string.\<close>

fun or_empty :: "string option \<Rightarrow> string" where
  "or_empty None = []"
| "or_empty (Some s) = s"

section \<open>Regular expressions\<close>

text \<open>
  The patterns of the program are sequences of single characters and \<open>+\<close>-repetitions
  of character classes, between the anchors \<open>^\<close> and \<open>$\<close>. A class is a bracket set
  or its complement; its items are literal characters, ranges and \<open>\s\<close>.
\<close>

datatype item = Lit char | Range char char | Space

datatype cls = In "item list" | NotIn "item list"

datatype atom = One cls | Plus cls | Bol | Eol

fun item_has :: "item \<Rightarrow> char \<Rightarrow> bool" where
  "item_has (Lit a) c = (c = a)"
| "item_has (Range lo hi) c = (ord lo \<le> ord c \<and> ord c \<le> ord hi)"
| "item_has Space c = isspace c"

fun cls_has :: "cls \<Rightarrow> char \<Rightarrow> bool" where
  "cls_has (In its) c = list_ex (\<lambda>i. item_has i c) its"
| "cls_has (NotIn its) c = (\<not> list_ex (\<lambda>i. item_has i c) its)"

text \<open>
  \<open>rmatch full pat bos s\<close> runs the backtracking matcher on \<open>s\<close> from its first
  character and returns the length of the match it finds first, if any. \<open>bos\<close> says
  whether \<open>s\<close> starts at the beginning of the subject string; with \<open>full\<close> the match
  must reach the end (\<open>re.fullmatch\<close>), without it any prefix will do (\<open>re.match\<close>).
  A repetition is greedy: it first tries to take one more character and gives one
  back only when the rest of the pattern fails. \<open>$\<close> holds at the end of the string
  and just before a newline that ends the string.
\<close>

fun rmatch :: "bool \<Rightarrow> atom list \<Rightarrow> bool \<Rightarrow> string \<Rightarrow> nat option" where
  "rmatch full [] bos s = (if full \<and> s \<noteq> [] then None else Some 0)"
| "rmatch full (Bol # pat) bos s = (if bos then rmatch full pat bos s else None)"
| "rmatch full (Eol # pat) bos s =
     (if s = [] \<or> s = [CHR 0x0A] then rmatch full pat bos s else None)"
| "rmatch full (One k # pat) bos [] = None"
| "rmatch full (One k # pat) bos (c # cs) =
     (if cls_has k c then map_option Suc (rmatch full pat False cs) else None)"
| "rmatch full (Plus k # pat) bos [] = None"
| "rmatch full (Plus k # pat) bos (c # cs) =
     (if cls_has k c
      then (case rmatch full (Plus k # pat) False cs of
              Some n \<Rightarrow> Some (Suc n)
            | None \<Rightarrow> map_option Suc (rmatch full pat False cs))
      else None)"

definition re_match :: "atom list \<Rightarrow> string \<Rightarrow> nat option" where
  "re_match pat s = rmatch False pat True s"

definition re_fullmatch :: "atom list \<Rightarrow> string \<Rightarrow> nat option" where
  "re_fullmatch pat s = rmatch True pat True s"

text \<open>
  \<open>re.sub(pat, repl, s)\<close> scans \<open>s\<close> from the left: where the pattern matches, the
  match is replaced by \<open>repl\<close> and the scan goes on after it; elsewhere the character
  is kept. An empty match is replaced too and the scan moves one character on.
\<close>

function re_sub_from :: "atom list \<Rightarrow> string \<Rightarrow> bool \<Rightarrow> string \<Rightarrow> string" where
  "re_sub_from pat repl bos [] = (case rmatch False pat bos [] of None \<Rightarrow> [] | Some n \<Rightarrow> repl)"
| "re_sub_from pat repl bos (c # cs) =
     (case rmatch False pat bos (c # cs) of
        None \<Rightarrow> c # re_sub_from pat repl False cs
      | Some 0 \<Rightarrow> repl @ c # re_sub_from pat repl False cs
      | Some (Suc n) \<Rightarrow> repl @ re_sub_from pat repl False (drop n cs))"
  by pat_completeness auto
termination
  by (relation "measure (\<lambda>(pat, repl, bos, s). length s)") auto

definition re_sub :: "atom list \<Rightarrow> string \<Rightarrow> string \<Rightarrow> string" where
  "re_sub pat repl s = re_sub_from pat repl True s"

section \<open>The helper functions of the program\<close>

text \<open>\<open>EMAIL_RE = re.compile(r"^[^\s@]+@[^\s@]+\.[^\s@]+$")\<close>\<close>

definition EMAIL_RE :: "atom list" where
  "EMAIL_RE = [Bol, Plus (NotIn [Space, Lit (CHR ''@'')]), One (In [Lit (CHR ''@'')]),
               Plus (NotIn [Space, Lit (CHR ''@'')]), One (In [Lit (CHR ''.'')]),
               Plus (NotIn [Space, Lit (CHR ''@'')]), Eol]"

definition sql_string_literal :: "string \<Rightarrow> string" where
  "sql_string_literal v = [CHR 0x27] @ str_replace v [CHR 0x27] [CHR 0x27, CHR 0x27] @ [CHR 0x27]"

definition normalize_space :: "string option \<Rightarrow> string" where
  "normalize_space v = re_sub [Plus (In [Space])] '' '' (str_strip (or_empty v))"

definition looks_like_bad_name_case :: "string \<Rightarrow> bool" where
  "looks_like_bad_name_case v1 =
     (let v = normalize_space (Some v1);
          letters = filter isalpha v
      in if length letters \<le> 1 then False
         else list_all ch_islower letters \<or> list_all ch_isupper letters)"

fun is_allowed_single_initial :: "string option \<Rightarrow> bool" where
  "is_allowed_single_initial None = False"
| "is_allowed_single_initial (Some raw_value) =
     (re_fullmatch [One (In [Range (CHR ''A'') (CHR ''Z'')]), Plus (In [Space])] raw_value \<noteq> None)"

section \<open>The page\<close>

text \<open>
  The script runs once per form submission and renders elements on the page in order;
  \<open>st.stop()\<close> ends the run. What is rendered from line 71 of \<open>app.py\<close> on is the
  result of the run (the title, the form and the rules above it are the same in every
  run). Icons are left out.
\<close>

datatype element =
    Error string
  | Info string
  | Divider
  | Subheader string
  | Code string
  | Download_button string string string string

text \<open>
  The form: whether it was submitted, and the contents of its four text inputs as typed.
  The source names the email input \<open>email\<close> and later assigns the normalized value to
  the same variable.
\<close>

record form =
  submitted :: bool
  email_raw :: string
  first_raw :: string
  middle_raw :: string
  last_raw :: string

definition presence_errors :: "string \<Rightarrow> string \<Rightarrow> string \<Rightarrow> string list" where
  \<open>presence_errors email first last_n =
     (if email = [] then [''Email is required.'']
      else if re_match EMAIL_RE email = None
      then [''Email doesn't look valid (expected something like name@company.com).'']
      else [])
     @ (if first = [] then [''First name is required.''] else [])
     @ (if last_n = [] then [''Last name is required.''] else [])\<close>

definition name_case_errors :: "string \<Rightarrow> string \<Rightarrow> string \<Rightarrow> string \<Rightarrow> string list" where
  \<open>name_case_errors first middle_raw1 middle last_n =
     (if length first = 1 \<and> str_islower first
      then [''First name cannot be all lowercase or all uppercase.''] else [])
     @ (if middle_raw1 \<noteq> [] \<and> length middle = 1 \<and> str_islower middle
        then [''Middle name cannot be all lowercase or all uppercase.''] else [])
     @ (if length last_n = 1 \<and> str_islower last_n
        then [''Last name cannot be all lowercase or all uppercase.''] else [])
     @ (if looks_like_bad_name_case first
        then [''First name cannot be all lowercase or all uppercase.''] else [])
     @ (if middle \<noteq> [] \<and> looks_like_bad_name_case middle
        then [''Middle name cannot be all lowercase or all uppercase.''] else [])
     @ (if looks_like_bad_name_case last_n
        then [''Last name cannot be all lowercase or all uppercase.''] else [])\<close>

definition single_char_msg :: string where
  \<open>single_char_msg = ''A single character is not allowed, please input a space after to proceed.''\<close>

definition single_char_errors ::
  "string \<Rightarrow> string \<Rightarrow> string \<Rightarrow> string \<Rightarrow> string \<Rightarrow> string \<Rightarrow> string list" where
  \<open>single_char_errors first first_raw1 middle middle_raw1 last_n last_raw1 =
     (if length first = 1 \<and> \<not> str_islower first \<and> \<not> is_allowed_single_initial (Some first_raw1)
      then [single_char_msg] else [])
     @ (if middle_raw1 \<noteq> [] \<and> length middle = 1 \<and> \<not> str_islower middle
           \<and> \<not> is_allowed_single_initial (Some middle_raw1)
        then [single_char_msg] else [])
     @ (if length last_n = 1 \<and> \<not> str_islower last_n \<and> \<not> is_allowed_single_initial (Some last_raw1)
        then [single_char_msg] else [])\<close>

definition greeting_call_sql :: "string \<Rightarrow> string \<Rightarrow> string \<Rightarrow> string \<Rightarrow> string" where
  \<open>greeting_call_sql email first_sql middle_sql last_sql =
     ''select util_db.public.greeting(''
     @ sql_string_literal email @ '', ''
     @ sql_string_literal first_sql @ '', ''
     @ sql_string_literal middle_sql @ '', ''
     @ sql_string_literal last_sql
     @ '');''\<close>

text \<open>The fixed text of the workshop script before the greeting statement.\<close>

definition sql_head :: string where
  \<open>sql_head =
     ''--!jinja\<newline>''
     @ ''use role accountadmin;\<newline>''
     @ ''\<newline>''
     @ ''create or replace api integration dora_api_integration \<newline>''
     @ ''api_provider = aws_api_gateway \<newline>''
     @ ''api_aws_role_arn = 'arn:aws:iam::321463406630:role/snowflakeLearnerAssumedRole' \<newline>''
     @ ''enabled = true \<newline>''
     @ ''api_allowed_prefixes = ('https://awy6hshxy4.execute-api.us-west-2.amazonaws.com/dev/edu_dora');\<newline>''
     @ ''\<newline>''
     @ ''create database if not exists util_db;\<newline>''
     @ ''use database util_db;\<newline>''
     @ ''use schema public;\<newline>''
     @ ''\<newline>''
     @ ''create or replace external function util_db.public.grader(        \<newline>''
     @ '' step varchar     \<newline>''
     @ '' , passed boolean     \<newline>''
     @ '' , actual integer     \<newline>''
     @ '' , expected integer    \<newline>''
     @ '' , description varchar) \<newline>''
     @ '' returns variant \<newline>''
     @ '' api_integration = dora_api_integration \<newline>''
     @ '' context_headers = (current_timestamp,current_account, current_statement, current_account_name) \<newline>''
     @ '' as 'https://awy6hshxy4.execute-api.us-west-2.amazonaws.com/dev/edu_dora/grader'  \<newline>''
     @ '';  \<newline>''
     @ ''\<newline>''
     @ ''select grader(step, (actual = expected), actual, expected, description) as graded_results from (SELECT\<newline>''
     @ '' 'AUTO_GRADER_IS_WORKING' as step\<newline>''
     @ '' ,(select 123) as actual\<newline>''
     @ '' ,123 as expected\<newline>''
     @ '' ,'The Snowflake auto-grader has been successfully set up in your account!' as description\<newline>''
     @ '');\<newline>''
     @ ''\<newline>''
     @ ''create or replace external function util_db.public.greeting(\<newline>''
     @ ''      email varchar\<newline>''
     @ ''    , firstname varchar\<newline>''
     @ ''    , middlename varchar\<newline>''
     @ ''    , lastname varchar)\<newline>''
     @ ''returns variant\<newline>''
     @ ''api_integration = dora_api_integration\<newline>''
     @ ''context_headers = (current_timestamp, current_account, current_statement, current_account_name) \<newline>''
     @ ''as 'https://awy6hshxy4.execute-api.us-west-2.amazonaws.com/dev/edu_dora/greeting'\<newline>''
     @ ''; \<newline>''
     @ ''\<newline>''
     @ ''\<newline>''
     @ ''-- Be sure to follow the rules your session leader presents\<newline>''
     @ ''-- Format your name CORRECTLY (do not use all lower case)\<newline>''
     @ ''-- If you do not have a middle name, use an empty string '' @ [CHR 0x27, CHR 0x27] @ '' ; do not use "null" in place of any values\<newline>''
     @ ''-- Double-check your email. You must use the same email for the greeting as you used to register\<newline>''\<close>

definition sql_out :: "string \<Rightarrow> string" where
  \<open>sql_out greeting = str_strip (sql_head @ greeting @ ''\<newline>'') @ ''\<newline>''\<close>

text \<open>\<open>encode("utf-8")\<close>: one byte for a code point below 128, two for the others.\<close>

definition encode_utf8 :: "string \<Rightarrow> char list" where
  "encode_utf8 s =
     concat (map (\<lambda>c. if ord c < 128 then [c]
                       else [char_of (192 + ord c div 64), char_of (128 + ord c mod 64)]) s)"

definition app :: "form \<Rightarrow> element list" where
  \<open>app f =
     (if \<not> submitted f then [Info ''Fill out the form and click **Generate SQL**.'']
      else
        let email = normalize_space (Some (email_raw f));
            first = normalize_space (Some (first_raw f));
            middle = normalize_space (Some (middle_raw f));
            last_n = normalize_space (Some (last_raw f));
            first_sql = or_empty (Some (first_raw f));
            middle_sql = or_empty (Some (middle_raw f));
            last_sql = or_empty (Some (last_raw f));
            errors = presence_errors email first last_n
        in if errors \<noteq> [] then map Error errors
           else
             let name_case_errs = name_case_errors first (middle_raw f) middle last_n
             in if name_case_errs \<noteq> [] then map Error name_case_errs
                else
                  let single_char_errs =
                        single_char_errors first (first_raw f) middle (middle_raw f) last_n (last_raw f)
                  in if single_char_errs \<noteq> [] then [Error single_char_msg]
                     else
                       let out = sql_out (greeting_call_sql email first_sql middle_sql last_sql)
                       in [Divider,
                           Subheader ''Generated Snowflake SQL'',
                           Code out,
                           Info (''Copy the script above, paste it into a **Snowflake worksheet**, and run it. ''
                                 @ ''You can also download it as a `.sql` file below.''),
                           Download_button ''Download as .sql'' (encode_utf8 out)
                             ''workshop_greeting.sql'' ''text/sql''])\<close>

section \<open>The specification's own notions\<close>

text \<open>
  The specification describes the normalizer in its own words: every maximal run of
  whitespace becomes a single space, then both ends are trimmed. \<open>collapse_runs\<close> and
  \<open>spec_normalize\<close> follow that wording; the code trims first and substitutes after.
\<close>

function collapse_runs :: "string \<Rightarrow> string" where
  "collapse_runs [] = []"
| "collapse_runs (c # cs) =
     (if isspace c then CHR '' '' # collapse_runs (dropWhile isspace cs)
      else c # collapse_runs cs)"
  by pat_completeness auto
termination
  by (relation "measure length") (auto simp: le_imp_less_Suc length_dropWhile_le)

definition spec_normalize :: "string \<Rightarrow> string" where
  "spec_normalize s = str_strip (collapse_runs s)"

text \<open>The right half of \<open>str_strip\<close>, for the proofs.\<close>

definition rstrip :: "string \<Rightarrow> string" where
  "rstrip s = rev (dropWhile isspace (rev s))"



text \<open>
  The specification's condition for the single-character message on one name field,
  given its normalized and its raw value.
\<close>

definition single_char_fires :: "string \<Rightarrow> string \<Rightarrow> bool" where
  "single_char_fires n raw =
     (length n = 1 \<and> \<not> str_islower n \<and> \<not> is_allowed_single_initial (Some raw))"

section \<open>The values of one run\<close>

text \<open>
  The variables of the script as functions of the submitted form, and the page of a
  successful run as a function of the generated script.
\<close>

definition norm_email :: "form \<Rightarrow> string" where
  "norm_email f = normalize_space (Some (email_raw f))"

definition norm_first :: "form \<Rightarrow> string" where
  "norm_first f = normalize_space (Some (first_raw f))"

definition norm_middle :: "form \<Rightarrow> string" where
  "norm_middle f = normalize_space (Some (middle_raw f))"

definition norm_last :: "form \<Rightarrow> string" where
  "norm_last f = normalize_space (Some (last_raw f))"

definition errors_of :: "form \<Rightarrow> string list" where
  "errors_of f = presence_errors (norm_email f) (norm_first f) (norm_last f)"

definition case_errors_of :: "form \<Rightarrow> string list" where
  "case_errors_of f = name_case_errors (norm_first f) (middle_raw f) (norm_middle f) (norm_last f)"

definition single_errors_of :: "form \<Rightarrow> string list" where
  "single_errors_of f =
     single_char_errors (norm_first f) (first_raw f) (norm_middle f) (middle_raw f)
       (norm_last f) (last_raw f)"

definition greeting_of :: "form \<Rightarrow> string" where
  "greeting_of f = greeting_call_sql (norm_email f) (first_raw f) (middle_raw f) (last_raw f)"

definition success_page :: "string \<Rightarrow> element list" where
  \<open>success_page out =
     [Divider,
      Subheader ''Generated Snowflake SQL'',
      Code out,
      Info (''Copy the script above, paste it into a **Snowflake worksheet**, and run it. ''
            @ ''You can also download it as a `.sql` file below.''),
      Download_button ''Download as .sql'' (encode_utf8 out) ''workshop_greeting.sql'' ''text/sql'']\<close>

text \<open>The three casing messages and the four messages of the first stage.\<close>

definition first_case_msg :: string where
  \<open>first_case_msg = ''First name cannot be all lowercase or all uppercase.''\<close>

definition middle_case_msg :: string where
  \<open>middle_case_msg = ''Middle name cannot be all lowercase or all uppercase.''\<close>

definition last_case_msg :: string where
  \<open>last_case_msg = ''Last name cannot be all lowercase or all uppercase.''\<close>

definition presence_msgs :: "string set" where
  \<open>presence_msgs =
     {''Email is required.'',
      ''Email doesn't look valid (expected something like name@company.com).'',
      ''First name is required.'',
      ''Last name is required.''}\<close>


section \<open>Lemmas\<close>

lemma isspace_blank: "isspace (CHR '' '')"
  by (simp add: isspace_def ord_def)

lemma rmatch_Plus_last:
  "rmatch False [Plus k] bos s =
     (if s \<noteq> [] \<and> cls_has k (hd s) then Some (length (takeWhile (cls_has k) s)) else None)"
proof (induction s arbitrary: bos)
  case Nil
  show ?case by simp
next
  case (Cons c cs)
  show ?case using Cons.IH [of False] by (cases cs) auto
qed

lemma cls_has_Space: "cls_has (In [Space]) = isspace"
  by (rule ext) simp

lemma dropWhile_all: "\<forall>x\<in>set xs. P x \<Longrightarrow> dropWhile P xs = []"
  by simp

lemma re_sub_from_ws:
  "re_sub_from [Plus (In [Space])] '' '' bos s = collapse_runs s"
proof (induction s arbitrary: bos rule: collapse_runs.induct)
  case 1
  show ?case by simp
next
  case (2 c cs)
  show ?case
  proof (cases "isspace c")
    case True
    have d: "drop (length (takeWhile isspace cs)) cs = dropWhile isspace cs"
      by (simp add: dropWhile_eq_drop)
    have m: "rmatch False [Plus (In [Space])] bos (c # cs) = Some (Suc (length (takeWhile isspace cs)))"
      using True by (simp add: rmatch_Plus_last cls_has_Space del: rmatch.simps cls_has.simps)
    show ?thesis
      using True 2(1) [OF True] by (simp add: m d del: rmatch.simps)
  next
    case False
    have m: "rmatch False [Plus (In [Space])] bos (c # cs) = None"
      using False by (simp add: rmatch_Plus_last cls_has_Space del: rmatch.simps cls_has.simps)
    show ?thesis
      using False 2(2) [OF False] by (simp add: m del: rmatch.simps)
  qed
qed

lemma normalize_space_collapse: "normalize_space (Some s) = collapse_runs (str_strip s)"
  by (simp add: normalize_space_def re_sub_def re_sub_from_ws)

lemma rstrip_Nil: "rstrip [] = []"
  by (simp add: rstrip_def)

lemma rstrip_Cons:
  "rstrip (c # cs) = (if list_all isspace (c # cs) then [] else c # rstrip cs)"
  by (auto simp: rstrip_def dropWhile_append list_all_iff)

lemma str_strip_rstrip: "str_strip s = rstrip (dropWhile isspace s)"
  by (simp add: str_strip_def rstrip_def)

lemma lstrip_rstrip: "dropWhile isspace (rstrip s) = rstrip (dropWhile isspace s)"
proof (induction s)
  case Nil
  show ?case by (simp add: rstrip_Nil)
next
  case (Cons c cs)
  show ?case
  proof (cases "list_all isspace (c # cs)")
    case True
    then have e: "dropWhile isspace (c # cs) = []" by (simp add: list_all_iff)
    show ?thesis unfolding e using True by (simp add: rstrip_Cons rstrip_Nil)
  next
    case False
    with Cons show ?thesis by (simp add: rstrip_Cons)
  qed
qed

lemma collapse_hd: "s \<noteq> [] \<Longrightarrow> \<not> isspace (hd s) \<Longrightarrow> \<exists>t. collapse_runs s = hd s # t"
  by (cases s) auto

lemma lstrip_collapse_noop:
  "s = [] \<or> \<not> isspace (hd s) \<Longrightarrow> dropWhile isspace (collapse_runs s) = collapse_runs s"
  by (cases s) auto

lemma hd_dropWhile_ns: "dropWhile isspace s = [] \<or> \<not> isspace (hd (dropWhile isspace s))"
  by (metis hd_dropWhile)

lemma collapse_lstrip: "collapse_runs (dropWhile isspace s) = dropWhile isspace (collapse_runs s)"
proof (cases s)
  case Nil
  then show ?thesis by simp
next
  case (Cons c cs)
  show ?thesis
  proof (cases "isspace c")
    case True
    have "dropWhile isspace (collapse_runs (dropWhile isspace cs)) = collapse_runs (dropWhile isspace cs)"
      using hd_dropWhile_ns [of cs] by (rule lstrip_collapse_noop)
    with True Cons show ?thesis by (simp add: isspace_blank)
  next
    case False
    with Cons show ?thesis by simp
  qed
qed

lemma collapse_not_all_ws:
  "s \<noteq> [] \<Longrightarrow> \<not> isspace (hd s) \<Longrightarrow> \<not> list_all isspace (collapse_runs s)"
  by (cases s) auto

lemma collapse_rstrip: "collapse_runs (rstrip s) = rstrip (collapse_runs s)"
proof (induction s rule: collapse_runs.induct)
  case 1
  show ?case by (simp add: rstrip_Nil)
next
  case (2 c cs)
  show ?case
  proof (cases "isspace c")
    case ws: True
    show ?thesis
    proof (cases "list_all isspace cs")
      case True
      then have e: "dropWhile isspace cs = []" by (simp add: list_all_iff)
      from ws True show ?thesis by (simp add: e rstrip_Cons rstrip_Nil isspace_blank)
    next
      case False
      let ?t = "dropWhile isspace cs"
      from False have ne: "?t \<noteq> []" by (simp add: list_all_iff)
      with hd_dropWhile_ns [of cs] have "\<not> isspace (hd ?t)" by blast
      with ne have nall: "\<not> list_all isspace (collapse_runs ?t)" by (rule collapse_not_all_ws)
      have "collapse_runs (rstrip (c # cs)) = CHR '' '' # collapse_runs (dropWhile isspace (rstrip cs))"
        using ws False by (simp add: rstrip_Cons)
      also have "\<dots> = CHR '' '' # collapse_runs (rstrip ?t)" by (simp add: lstrip_rstrip)
      also have "\<dots> = CHR '' '' # rstrip (collapse_runs ?t)" using 2(1) [OF ws] by simp
      also have "\<dots> = rstrip (CHR '' '' # collapse_runs ?t)" using nall by (simp add: rstrip_Cons)
      also have "\<dots> = rstrip (collapse_runs (c # cs))" using ws by simp
      finally show ?thesis .
    qed
  next
    case False
    with 2 show ?thesis by (simp add: rstrip_Cons)
  qed
qed

lemma collapse_strip: "collapse_runs (str_strip s) = str_strip (collapse_runs s)"
  by (simp add: str_strip_rstrip collapse_rstrip collapse_lstrip)

lemma rstrip_idem: "rstrip (rstrip s) = rstrip s"
  by (simp add: rstrip_def)

lemma str_strip_idem: "str_strip (str_strip s) = str_strip s"
  by (simp add: str_strip_rstrip lstrip_rstrip rstrip_idem)

lemma collapse_idem: "collapse_runs (collapse_runs s) = collapse_runs s"
proof (induction s rule: collapse_runs.induct)
  case 1
  show ?case by simp
next
  case (2 c cs)
  show ?case
  proof (cases "isspace c")
    case True
    have "dropWhile isspace (collapse_runs (dropWhile isspace cs)) = collapse_runs (dropWhile isspace cs)"
      using hd_dropWhile_ns [of cs] by (rule lstrip_collapse_noop)
    with True 2 show ?thesis by (simp add: isspace_blank)
  next
    case False
    with 2 show ?thesis by simp
  qed
qed

lemma normalize_space_idem_aux:
  "normalize_space (Some (normalize_space (Some s))) = normalize_space (Some s)"
  by (simp add: normalize_space_collapse collapse_strip str_strip_idem collapse_idem)

lemma rmatch_Nil_iff: "(rmatch full [] bos s \<noteq> None) = (\<not> full \<or> s = [])"
  by simp

lemma rmatch_One_iff:
  "(rmatch full (One k # pat) bos s \<noteq> None) =
     (\<exists>c cs. s = c # cs \<and> cls_has k c \<and> rmatch full pat False cs \<noteq> None)"
  by (cases s) auto

lemma rmatch_Plus_iff:
  "(rmatch full (Plus k # pat) bos s \<noteq> None) =
     (\<exists>a r. s = a @ r \<and> a \<noteq> [] \<and> list_all (cls_has k) a \<and> rmatch full pat False r \<noteq> None)"
proof (induction s arbitrary: bos)
  case Nil
  show ?case by simp
next
  case (Cons c cs)
  show ?case
  proof (cases "cls_has k c")
    case False
    have "\<not> (\<exists>a r. c # cs = a @ r \<and> a \<noteq> [] \<and> list_all (cls_has k) a \<and> rmatch full pat False r \<noteq> None)"
      using False by (auto simp: Cons_eq_append_conv)
    with False show ?thesis by simp
  next
    case True
    have "(rmatch full (Plus k # pat) bos (c # cs) \<noteq> None) =
            (rmatch full (Plus k # pat) False cs \<noteq> None \<or> rmatch full pat False cs \<noteq> None)"
      using True by (auto split: option.splits)
    also have "\<dots> = ((\<exists>a r. cs = a @ r \<and> a \<noteq> [] \<and> list_all (cls_has k) a \<and> rmatch full pat False r \<noteq> None)
                       \<or> rmatch full pat False cs \<noteq> None)"
      by (simp only: Cons.IH)
    also have "\<dots> = (\<exists>a r. c # cs = a @ r \<and> a \<noteq> [] \<and> list_all (cls_has k) a \<and> rmatch full pat False r \<noteq> None)"
      (is "?L = ?R")
    proof
      assume ?L
      then show ?R
      proof
        assume "\<exists>a r. cs = a @ r \<and> a \<noteq> [] \<and> list_all (cls_has k) a \<and> rmatch full pat False r \<noteq> None"
        then obtain a r where "cs = a @ r" "list_all (cls_has k) a" "rmatch full pat False r \<noteq> None"
          by blast
        with True have "c # cs = (c # a) @ r \<and> c # a \<noteq> [] \<and> list_all (cls_has k) (c # a)
                          \<and> rmatch full pat False r \<noteq> None" by simp
        then show ?R by blast
      next
        assume "rmatch full pat False cs \<noteq> None"
        with True have "c # cs = [c] @ cs \<and> [c] \<noteq> [] \<and> list_all (cls_has k) [c]
                          \<and> rmatch full pat False cs \<noteq> None" by simp
        then show ?R by blast
      qed
    next
      assume ?R
      then obtain a r where ar: "c # cs = a @ r" "a \<noteq> []" "list_all (cls_has k) a"
          "rmatch full pat False r \<noteq> None" by blast
      then obtain a' where a: "a = c # a'" "cs = a' @ r" by (cases a) auto
      show ?L
      proof (cases "a' = []")
        case True
        with a ar show ?thesis by simp
      next
        case False
        with a ar have "cs = a' @ r \<and> a' \<noteq> [] \<and> list_all (cls_has k) a' \<and> rmatch full pat False r \<noteq> None"
          by simp
        then show ?thesis by blast
      qed
    qed
    finally show ?thesis .
  qed
qed





lemma cls_has_AZ: "cls_has (In [Range (CHR ''A'') (CHR ''Z'')]) c = (65 \<le> ord c \<and> ord c \<le> 90)"
  by (simp add: ord_def)

lemma single_initial_iff:
  "is_allowed_single_initial raw =
     (\<exists>c ws. raw = Some (c # ws) \<and> 65 \<le> ord c \<and> ord c \<le> 90 \<and> ws \<noteq> [] \<and> list_all isspace ws)"
proof (cases raw)
  case None
  then show ?thesis by simp
next
  case (Some s)
  have "is_allowed_single_initial (Some s) =
          (\<exists>c cs. s = c # cs \<and> (65 \<le> ord c \<and> ord c \<le> 90)
                  \<and> (\<exists>a r. cs = a @ r \<and> a \<noteq> [] \<and> list_all isspace a \<and> r = []))"
    by (simp only: is_allowed_single_initial.simps re_fullmatch_def rmatch_One_iff rmatch_Plus_iff
        rmatch_Nil_iff cls_has_AZ cls_has_Space simp_thms)
  also have "\<dots> = (\<exists>c ws. s = c # ws \<and> 65 \<le> ord c \<and> ord c \<le> 90 \<and> ws \<noteq> [] \<and> list_all isspace ws)"
    by auto
  finally show ?thesis using Some by simp
qed


lemma app_unfold:
  "app f =
     (if \<not> submitted f then [Info ''Fill out the form and click **Generate SQL**.'']
      else if errors_of f \<noteq> [] then map Error (errors_of f)
      else if case_errors_of f \<noteq> [] then map Error (case_errors_of f)
      else if single_errors_of f \<noteq> [] then [Error single_char_msg]
      else success_page (sql_out (greeting_of f)))"
  by (simp add: app_def Let_def errors_of_def case_errors_of_def single_errors_of_def
      greeting_of_def success_page_def norm_email_def norm_first_def norm_middle_def norm_last_def)

lemma strip_core:
  assumes "x \<noteq> []" "\<not> isspace (hd x)" "\<not> isspace (last x)" "\<forall>c\<in>set w. isspace c"
  shows "str_strip (x @ w) = x"
proof -
  from assms(1,2) have a: "dropWhile isspace (x @ w) = x @ w" by (cases x) auto
  from assms(1,3) have "rev x \<noteq> [] \<and> \<not> isspace (hd (rev x))" by (simp add: hd_rev)
  then have b: "dropWhile isspace (rev x) = rev x" by (cases "rev x") auto
  from assms(4) have "dropWhile isspace (rev w @ rev x) = dropWhile isspace (rev x)"
    by (simp add: dropWhile_append)
  with a b show ?thesis by (simp add: str_strip_def)
qed

lemma hd_sql_head: "sql_head \<noteq> [] \<and> hd sql_head = CHR ''-''"
  by (simp add: sql_head_def)

lemma last_greeting: "last (greeting_call_sql e a b c) = CHR '';''"
  by (simp add: greeting_call_sql_def)

lemma sql_out_greeting:
  "sql_out (greeting_call_sql e a b c) = sql_head @ greeting_call_sql e a b c @ ''\<newline>''"
proof -
  let ?g = "greeting_call_sql e a b c"
  have ne: "?g \<noteq> []" by (simp add: greeting_call_sql_def)
  have 1: "sql_head @ ?g \<noteq> []" using ne by simp
  have 2: "\<not> isspace (hd (sql_head @ ?g))"
    using hd_sql_head by (simp add: isspace_def ord_def)
  have 3: "\<not> isspace (last (sql_head @ ?g))"
    using ne by (simp add: last_greeting isspace_def ord_def)
  have 4: "\<forall>c\<in>set ''\<newline>''. isspace c" by (simp add: isspace_def ord_def)
  have "str_strip ((sql_head @ ?g) @ ''\<newline>'') = sql_head @ ?g"
    using 1 2 3 4 by (rule strip_core)
  then show ?thesis by (simp add: sql_out_def)
qed

lemma isspace_not_alpha: "isspace c \<Longrightarrow> \<not> isalpha c"
  by (auto simp: isspace_def isalpha_def)

lemma blank_not_alpha: "\<not> isalpha (CHR '' '')"
  by (simp add: isalpha_def ord_def)

lemma lower_not_upper: "ch_islower c \<Longrightarrow> \<not> ch_isupper c"
  by (auto simp: ch_islower_def ch_isupper_def)

lemma filter_alpha_dropWhile: "filter isalpha (dropWhile isspace s) = filter isalpha s"
  by (induction s) (auto simp: isspace_not_alpha)

lemma filter_alpha_collapse: "filter isalpha (collapse_runs s) = filter isalpha s"
proof (induction s rule: collapse_runs.induct)
  case 1
  show ?case by simp
next
  case (2 c cs)
  show ?case
  proof (cases "isspace c")
    case True
    with 2 show ?thesis
      by (simp add: blank_not_alpha isspace_not_alpha filter_alpha_dropWhile)
  next
    case False
    with 2 show ?thesis by simp
  qed
qed

lemma filter_alpha_rstrip: "filter isalpha (rstrip s) = filter isalpha s"
proof -
  have "filter isalpha (rstrip s) = rev (filter isalpha (dropWhile isspace (rev s)))"
    by (simp add: rstrip_def rev_filter)
  also have "\<dots> = rev (filter isalpha (rev s))" by (simp only: filter_alpha_dropWhile)
  also have "\<dots> = filter isalpha s" by (simp add: rev_filter)
  finally show ?thesis .
qed

lemma filter_alpha_normalize: "filter isalpha (normalize_space (Some s)) = filter isalpha s"
  by (simp add: normalize_space_collapse filter_alpha_collapse str_strip_rstrip
      filter_alpha_rstrip filter_alpha_dropWhile)

lemma bad_case_iff:
  "looks_like_bad_name_case v =
     (1 < length (filter isalpha v)
      \<and> (list_all ch_islower (filter isalpha v) \<or> list_all ch_isupper (filter isalpha v)))"
  by (auto simp: looks_like_bad_name_case_def Let_def filter_alpha_normalize)






lemma replace_quote:
  "replace_from [q] [q, q] v = concat (map (\<lambda>c. if c = q then [q, q] else [c]) v)"
  by (induction v) auto

lemma sql_literal_eq:
  "sql_string_literal v =
     [CHR 0x27] @ concat (map (\<lambda>c. if c = CHR 0x27 then [CHR 0x27, CHR 0x27] else [c]) v) @ [CHR 0x27]"
  by (simp add: sql_string_literal_def str_replace_def replace_quote)

lemma normalize_all_space: "list_all isspace s \<Longrightarrow> normalize_space (Some s) = []"
proof -
  assume "list_all isspace s"
  then have "\<forall>x\<in>set s. isspace x" by (simp add: list_all_iff)
  then have e: "dropWhile isspace s = []" by (rule dropWhile_all)
  have "str_strip s = []" unfolding str_strip_def e by simp
  then show ?thesis by (simp add: normalize_space_collapse)
qed

lemma normalize_Nil: "normalize_space (Some []) = []"
  by (simp add: normalize_all_space)

lemma islower_single: "str_islower [c] = ch_islower c"
  by (auto simp: str_islower_def lower_not_upper)

lemmas run_defs = norm_email_def norm_first_def norm_middle_def norm_last_def errors_of_def
  case_errors_of_def single_errors_of_def greeting_of_def presence_errors_def
  name_case_errors_def single_char_errors_def

lemmas eval_defs = normalize_space_collapse str_strip_def isspace_def ord_def re_match_def
  re_fullmatch_def EMAIL_RE_def str_islower_def ch_islower_def ch_isupper_def bad_case_iff
  isalpha_def

lemma app_success:
  "submitted f \<Longrightarrow> errors_of f = [] \<Longrightarrow> case_errors_of f = [] \<Longrightarrow> single_errors_of f = []
     \<Longrightarrow> app f = success_page (sql_out (greeting_of f))"
  by (simp add: app_unfold)

lemma app_Code: "Code out \<in> set (app f) \<Longrightarrow> out = sql_out (greeting_of f)"
  by (auto simp: app_unfold success_page_def split: if_splits)

lemma app_Code_success:
  "Code out \<in> set (app f) \<Longrightarrow>
     submitted f \<and> errors_of f = [] \<and> case_errors_of f = [] \<and> single_errors_of f = []"
  by (auto simp: app_unfold success_page_def split: if_splits)

lemma presence_subset: "set (errors_of f) \<subseteq> presence_msgs"
  by (auto simp: errors_of_def presence_errors_def presence_msgs_def)

lemma case_subset: "set (case_errors_of f) \<subseteq> {first_case_msg, middle_case_msg, last_case_msg}"
  by (auto simp: case_errors_of_def name_case_errors_def first_case_msg_def middle_case_msg_def
      last_case_msg_def)

lemma single_subset: "set (single_errors_of f) \<subseteq> {single_char_msg}"
  by (auto simp: single_errors_of_def single_char_errors_def)

lemma single_not_presence: "single_char_msg \<notin> presence_msgs"
  by (simp add: single_char_msg_def presence_msgs_def)

lemma single_not_case: "single_char_msg \<notin> {first_case_msg, middle_case_msg, last_case_msg}"
  by (simp add: single_char_msg_def first_case_msg_def middle_case_msg_def last_case_msg_def)

lemma case_not_presence: "{first_case_msg, middle_case_msg, last_case_msg} \<inter> presence_msgs = {}"
  by (simp add: presence_msgs_def first_case_msg_def middle_case_msg_def last_case_msg_def)

lemma normalize_len1_nonempty: "length (normalize_space (Some s)) = 1 \<Longrightarrow> s \<noteq> []"
  by (auto simp: normalize_Nil)

lemma single_errors_fires:
  "single_errors_of f =
     (if single_char_fires (norm_first f) (first_raw f) then [single_char_msg] else [])
     @ (if single_char_fires (norm_middle f) (middle_raw f) then [single_char_msg] else [])
     @ (if single_char_fires (norm_last f) (last_raw f) then [single_char_msg] else [])"
proof -
  have "length (norm_middle f) = 1 \<Longrightarrow> middle_raw f \<noteq> []"
    unfolding norm_middle_def by (rule normalize_len1_nonempty)
  then show ?thesis
    by (auto simp: single_errors_of_def single_char_errors_def single_char_fires_def)
qed

lemma no_single_in_errors: "Error single_char_msg \<notin> Error ` set (errors_of f)"
  using presence_subset [of f] single_not_presence by auto

lemma no_single_in_case: "Error single_char_msg \<notin> Error ` set (case_errors_of f)"
  using case_subset [of f] single_not_case by auto

lemma no_case_in_errors:
  "m \<in> {first_case_msg, middle_case_msg, last_case_msg} \<Longrightarrow> Error m \<notin> Error ` set (errors_of f)"
  using presence_subset [of f] case_not_presence by auto

lemma filter_map_none: "x \<notin> set xs \<Longrightarrow> filter (\<lambda>e. e = x) xs = []"
  by (induction xs) auto

lemma fires_not_lower: "length n = 1 \<and> str_islower n \<Longrightarrow> \<not> single_char_fires n raw"
  by (simp add: single_char_fires_def)

lemma case_first: "length (norm_first f) = 1 \<and> str_islower (norm_first f)
    \<Longrightarrow> first_case_msg \<in> set (case_errors_of f)"
  by (simp add: case_errors_of_def name_case_errors_def first_case_msg_def)

lemma case_middle: "length (norm_middle f) = 1 \<and> str_islower (norm_middle f)
    \<Longrightarrow> middle_case_msg \<in> set (case_errors_of f)"
proof -
  assume h: "length (norm_middle f) = 1 \<and> str_islower (norm_middle f)"
  have "middle_raw f \<noteq> []"
  proof
    assume "middle_raw f = []"
    then have "norm_middle f = []" by (simp add: norm_middle_def normalize_Nil)
    with h show False by simp
  qed
  with h show ?thesis by (simp add: case_errors_of_def name_case_errors_def middle_case_msg_def)
qed

lemma case_last: "length (norm_last f) = 1 \<and> str_islower (norm_last f)
    \<Longrightarrow> last_case_msg \<in> set (case_errors_of f)"
  by (simp add: case_errors_of_def name_case_errors_def last_case_msg_def)

lemma single_shown_fires:
  assumes "Error single_char_msg \<in> set (app f)"
  shows "submitted f \<and> errors_of f = [] \<and> case_errors_of f = [] \<and> single_errors_of f \<noteq> []"
proof -
  have a: "Error single_char_msg \<notin> set (map Error (errors_of f))"
    using no_single_in_errors [of f] by simp
  have b: "Error single_char_msg \<notin> set (map Error (case_errors_of f))"
    using no_single_in_case [of f] by simp
  from assms a b show ?thesis
    by (auto simp: app_unfold success_page_def split: if_splits)
qed

section \<open>The claims\<close>

text \<open>
  C4. \<open>is_allowed_single_initial\<close> holds exactly for one uppercase ASCII letter followed by
  one or more whitespace characters and nothing else.
\<close>

theorem C4_single_initial:
  "(is_allowed_single_initial raw =
      (\<exists>c ws. raw = Some (c # ws) \<and> ord (CHR ''A'') \<le> ord c \<and> ord c \<le> ord (CHR ''Z'')
              \<and> ws \<noteq> [] \<and> list_all isspace ws))
   \<and> \<not> is_allowed_single_initial None
   \<and> \<not> is_allowed_single_initial (Some [])
   \<and> \<not> is_allowed_single_initial (Some ''K'')
   \<and> \<not> is_allowed_single_initial (Some ''k '')
   \<and> is_allowed_single_initial (Some ''K '')"
proof -
  have "ord (CHR ''A'') = 65" and "ord (CHR ''Z'') = 90" by (simp_all add: ord_def)
  then have g: "is_allowed_single_initial raw =
      (\<exists>c ws. raw = Some (c # ws) \<and> ord (CHR ''A'') \<le> ord c \<and> ord c \<le> ord (CHR ''Z'')
              \<and> ws \<noteq> [] \<and> list_all isspace ws)"
    by (simp only: single_initial_iff)
  have e: "\<not> is_allowed_single_initial (Some ''K'')" "\<not> is_allowed_single_initial (Some ''k '')"
    "is_allowed_single_initial (Some ''K '')" "\<not> is_allowed_single_initial (Some [])"
    by (simp_all add: re_fullmatch_def ord_def isspace_def)
  from g e show ?thesis by simp
qed

theorem C4_single_initial_witness:
  "is_allowed_single_initial (Some [CHR ''Q'', CHR 0x09, CHR '' ''])"
proof -
  have "\<exists>c ws. Some [CHR ''Q'', CHR 0x09, CHR '' ''] = Some (c # ws)
          \<and> ord (CHR ''A'') \<le> ord c \<and> ord c \<le> ord (CHR ''Z'') \<and> ws \<noteq> [] \<and> list_all isspace ws"
    by (simp add: ord_def isspace_def)
  with C4_single_initial [of "Some [CHR ''Q'', CHR 0x09, CHR '' '']"] show ?thesis by blast
qed

text \<open>
  C7. \<open>normalize_space\<close> replaces every maximal run of whitespace by one space and trims
  both ends, gives the empty string for \<open>None\<close> and for the empty string, and is
  idempotent.
\<close>

theorem C7_normalize:
  "normalize_space None = []
   \<and> normalize_space (Some []) = []
   \<and> normalize_space (Some s) = spec_normalize s
   \<and> normalize_space (Some (normalize_space v)) = normalize_space v
   \<and> normalize_space (Some ''  a   b  '') = ''a b''"
proof -
  have n: "normalize_space None = []" "normalize_space (Some []) = []"
    by (simp_all add: normalize_space_collapse normalize_space_def re_sub_def str_strip_def)
  have r: "normalize_space (Some s) = spec_normalize s"
    by (simp add: normalize_space_collapse spec_normalize_def collapse_strip)
  have i: "normalize_space (Some (normalize_space v)) = normalize_space v"
  proof (cases v)
    case None
    with n show ?thesis by simp
  next
    case (Some t)
    then show ?thesis by (simp add: normalize_space_idem_aux)
  qed
  have e: "normalize_space (Some ''  a   b  '') = ''a b''"
    by (simp add: normalize_space_collapse str_strip_def isspace_def ord_def)
  from n r i e show ?thesis by simp
qed

theorem C7_normalize_witness:
  "normalize_space (Some (normalize_space (Some [CHR 0x09, CHR ''x'', CHR 0x0A, CHR '' '', CHR ''y'', CHR '' ''])))
     = ''x y''"
proof -
  have "normalize_space (Some [CHR 0x09, CHR ''x'', CHR 0x0A, CHR '' '', CHR ''y'', CHR '' '']) = ''x y''"
    by (simp add: normalize_space_collapse str_strip_def isspace_def ord_def)
  with C7_normalize [of "[]" "Some [CHR 0x09, CHR ''x'', CHR 0x0A, CHR '' '', CHR ''y'', CHR '' '']"]
  show ?thesis by simp
qed

text \<open>
  C5. \<open>looks_like_bad_name_case\<close> is false when the name has at most one alphabetic
  character; otherwise it is true exactly when all alphabetic characters are lowercase
  or all are uppercase.
\<close>

theorem C5_bad_name_case:
  "(looks_like_bad_name_case v =
      (1 < length (filter isalpha v)
       \<and> (list_all ch_islower (filter isalpha v) \<or> list_all ch_isupper (filter isalpha v))))
   \<and> looks_like_bad_name_case ''john''
   \<and> looks_like_bad_name_case ''JOHN''
   \<and> \<not> looks_like_bad_name_case ''John''
   \<and> \<not> looks_like_bad_name_case ''J''
   \<and> filter isalpha ''O'Brien'' = ''OBrien''
   \<and> \<not> looks_like_bad_name_case ''O'Brien''"
proof -
  have e: "looks_like_bad_name_case ''john''" "looks_like_bad_name_case ''JOHN''"
    "\<not> looks_like_bad_name_case ''John''" "\<not> looks_like_bad_name_case ''J''"
    "\<not> looks_like_bad_name_case ''O'Brien''"
    by (simp_all add: bad_case_iff isalpha_def ch_islower_def ch_isupper_def ord_def)
  have f: "filter isalpha ''O'Brien'' = ''OBrien''"
    by (simp add: isalpha_def ord_def)
  from e f show ?thesis by (simp only: bad_case_iff [symmetric] simp_thms)
qed

theorem C5_bad_name_case_witness:
  "looks_like_bad_name_case ''mc donald'' \<and> \<not> looks_like_bad_name_case ''McDonald''"
proof -
  have a: "1 < length (filter isalpha ''mc donald'')
           \<and> (list_all ch_islower (filter isalpha ''mc donald'')
              \<or> list_all ch_isupper (filter isalpha ''mc donald''))"
    by (simp add: isalpha_def ch_islower_def ord_def)
  have b: "\<not> (1 < length (filter isalpha ''McDonald'')
           \<and> (list_all ch_islower (filter isalpha ''McDonald'')
              \<or> list_all ch_isupper (filter isalpha ''McDonald'')))"
    by (simp add: isalpha_def ch_islower_def ch_isupper_def ord_def)
  from a b C5_bad_name_case [of "''mc donald''"] C5_bad_name_case [of "''McDonald''"]
  show ?thesis by blast
qed



text \<open>
  C9. Every value in the greeting statement is written as an SQL string literal: between
  single quotes, with each single quote of the value doubled.
\<close>

theorem C9_sql_literal:
  "sql_string_literal v =
     [CHR 0x27] @ concat (map (\<lambda>c. if c = CHR 0x27 then [CHR 0x27, CHR 0x27] else [c]) v) @ [CHR 0x27]
   \<and> sql_string_literal ''O'Brien'' = [CHR 0x27] @ ''O'' @ [CHR 0x27, CHR 0x27] @ ''Brien'' @ [CHR 0x27]
   \<and> (Code out \<in> set (app f) \<longrightarrow>
        out = sql_head @ ''select util_db.public.greeting(''
              @ sql_string_literal (norm_email f) @ '', ''
              @ sql_string_literal (first_raw f) @ '', ''
              @ sql_string_literal (middle_raw f) @ '', ''
              @ sql_string_literal (last_raw f) @ '');'' @ ''\<newline>'')"
proof -
  have a: "sql_string_literal v =
     [CHR 0x27] @ concat (map (\<lambda>c. if c = CHR 0x27 then [CHR 0x27, CHR 0x27] else [c]) v) @ [CHR 0x27]"
    by (rule sql_literal_eq)
  have b: "sql_string_literal ''O'Brien'' = [CHR 0x27] @ ''O'' @ [CHR 0x27, CHR 0x27] @ ''Brien'' @ [CHR 0x27]"
    by (simp add: sql_literal_eq)
  have c: "Code out \<in> set (app f) \<longrightarrow>
        out = sql_head @ ''select util_db.public.greeting(''
              @ sql_string_literal (norm_email f) @ '', ''
              @ sql_string_literal (first_raw f) @ '', ''
              @ sql_string_literal (middle_raw f) @ '', ''
              @ sql_string_literal (last_raw f) @ '');'' @ ''\<newline>''"
  proof
    assume h: "Code out \<in> set (app f)"
    then have "out = sql_out (greeting_of f)"
      by (auto simp: app_unfold success_page_def split: if_splits)
    then show "out = sql_head @ ''select util_db.public.greeting(''
              @ sql_string_literal (norm_email f) @ '', ''
              @ sql_string_literal (first_raw f) @ '', ''
              @ sql_string_literal (middle_raw f) @ '', ''
              @ sql_string_literal (last_raw f) @ '');'' @ ''\<newline>''"
      by (simp add: greeting_of_def sql_out_greeting) (simp add: greeting_call_sql_def)
  qed
  from a b c show ?thesis by (intro conjI)
qed

theorem C9_sql_literal_witness:
  "Code (sql_head @ ''select util_db.public.greeting('ann@ex.org', 'Pat', 'Lee', 'O''
         @ [CHR 0x27, CHR 0x27] @ ''Brien');'' @ ''\<newline>'')
     \<in> set (app \<lparr>submitted = True, email_raw = ''ann@ex.org'', first_raw = ''Pat'',
                   middle_raw = ''Lee'', last_raw = ''O'Brien''\<rparr>)"
proof -
  let ?f = "\<lparr>submitted = True, email_raw = ''ann@ex.org'', first_raw = ''Pat'',
              middle_raw = ''Lee'', last_raw = ''O'Brien''\<rparr>"
  have s: "submitted ?f" by simp
  have e: "errors_of ?f = []" by (simp add: run_defs eval_defs)
  have c: "case_errors_of ?f = []" by (simp add: run_defs eval_defs)
  have g: "single_errors_of ?f = []" by (simp add: run_defs eval_defs)
  have m: "Code (sql_out (greeting_of ?f)) \<in> set (app ?f)"
    by (simp add: app_success [OF s e c g] success_page_def)
  have n: "norm_email ?f = ''ann@ex.org''" by (simp add: run_defs eval_defs)
  have "sql_out (greeting_of ?f) = sql_head @ ''select util_db.public.greeting(''
              @ sql_string_literal (norm_email ?f) @ '', ''
              @ sql_string_literal (first_raw ?f) @ '', ''
              @ sql_string_literal (middle_raw ?f) @ '', ''
              @ sql_string_literal (last_raw ?f) @ '');'' @ ''\<newline>''"
    using C9_sql_literal [of "[]" "sql_out (greeting_of ?f)" ?f] m by blast
  then have "sql_out (greeting_of ?f) =
      sql_head @ ''select util_db.public.greeting('ann@ex.org', 'Pat', 'Lee', 'O''
         @ [CHR 0x27, CHR 0x27] @ ''Brien');'' @ ''\<newline>''"
    by (simp add: n sql_literal_eq)
  with m show ?thesis by simp
qed

text \<open>
  C1. As stated (all four interpolated values are the raw field contents) the claim fails:
  the email written into the statement is the normalized one.
\<close>

theorem C1_counterexample:
  "Code (sql_out (greeting_call_sql ''a@b.com'' ''John'' [] ''Smith''))
     \<in> set (app \<lparr>submitted = True, email_raw = '' a@b.com'', first_raw = ''John'',
                   middle_raw = [], last_raw = ''Smith''\<rparr>)
   \<and> sql_out (greeting_call_sql ''a@b.com'' ''John'' [] ''Smith'')
       \<noteq> sql_out (greeting_call_sql '' a@b.com'' ''John'' [] ''Smith'')"
proof -
  let ?f = "\<lparr>submitted = True, email_raw = '' a@b.com'', first_raw = ''John'',
              middle_raw = [], last_raw = ''Smith''\<rparr>"
  have s: "submitted ?f" by simp
  have e: "errors_of ?f = []" by (simp add: run_defs eval_defs)
  have c: "case_errors_of ?f = []" by (simp add: run_defs eval_defs)
  have g: "single_errors_of ?f = []" by (simp add: run_defs eval_defs)
  have n: "greeting_of ?f = greeting_call_sql ''a@b.com'' ''John'' [] ''Smith''"
    by (simp add: run_defs eval_defs)
  have m: "Code (sql_out (greeting_call_sql ''a@b.com'' ''John'' [] ''Smith'')) \<in> set (app ?f)"
    by (simp add: app_success [OF s e c g] success_page_def n)
  have d: "sql_out (greeting_call_sql ''a@b.com'' ''John'' [] ''Smith'')
             \<noteq> sql_out (greeting_call_sql '' a@b.com'' ''John'' [] ''Smith'')"
    by (simp add: sql_out_greeting) (simp add: greeting_call_sql_def sql_literal_eq)
  from m d show ?thesis by simp
qed

text \<open>
  C1, amended. Whenever the script is shown, the first, middle and last name written into
  the greeting statement are the raw field contents as typed, and the email is the
  normalized email.
\<close>

theorem C1_interpolated_values:
  "Code out \<in> set (app f) \<Longrightarrow>
     out = sql_out (greeting_call_sql (normalize_space (Some (email_raw f)))
                      (first_raw f) (middle_raw f) (last_raw f))
     \<and> out = sql_head @ greeting_call_sql (normalize_space (Some (email_raw f)))
                           (first_raw f) (middle_raw f) (last_raw f) @ ''\<newline>''"
proof -
  assume "Code out \<in> set (app f)"
  then have "out = sql_out (greeting_of f)" by (rule app_Code)
  then show ?thesis by (simp add: greeting_of_def norm_email_def sql_out_greeting)
qed

theorem C1_interpolated_values_witness:
  "Code (sql_head @ greeting_call_sql ''a@b.com'' ''K '' [] ''Smith'' @ ''\<newline>'')
     \<in> set (app \<lparr>submitted = True, email_raw = ''  a@b.com '', first_raw = ''K '',
                   middle_raw = [], last_raw = ''Smith''\<rparr>)"
proof -
  let ?f = "\<lparr>submitted = True, email_raw = ''  a@b.com '', first_raw = ''K '',
              middle_raw = [], last_raw = ''Smith''\<rparr>"
  have s: "submitted ?f" by simp
  have e: "errors_of ?f = []" by (simp add: run_defs eval_defs)
  have c: "case_errors_of ?f = []" by (simp add: run_defs eval_defs)
  have g: "single_errors_of ?f = []" by (simp add: run_defs eval_defs)
  have m: "Code (sql_out (greeting_of ?f)) \<in> set (app ?f)"
    by (simp add: app_success [OF s e c g] success_page_def)
  have n: "normalize_space (Some (email_raw ?f)) = ''a@b.com''" by (simp add: eval_defs)
  from C1_interpolated_values [OF m]
  have "sql_out (greeting_of ?f) =
          sql_head @ greeting_call_sql (normalize_space (Some (email_raw ?f)))
                       (first_raw ?f) (middle_raw ?f) (last_raw ?f) @ ''\<newline>''"
    by blast
  then have "sql_out (greeting_of ?f) = sql_head @ greeting_call_sql ''a@b.com'' ''K '' [] ''Smith'' @ ''\<newline>''"
    by (simp only: n) simp
  with m show ?thesis by simp
qed

text \<open>
  C2. The three categories are tried in order. The first one that has errors decides the
  page: its messages are shown (the single-character category as its one shared message),
  nothing of a later category is shown, and no script is produced.
\<close>

theorem C2_fail_fast:
  assumes "submitted f"
  shows "(errors_of f \<noteq> [] \<longrightarrow> app f = map Error (errors_of f))
   \<and> (errors_of f = [] \<and> case_errors_of f \<noteq> [] \<longrightarrow> app f = map Error (case_errors_of f))
   \<and> (errors_of f = [] \<and> case_errors_of f = [] \<and> single_errors_of f \<noteq> [] \<longrightarrow>
        app f = [Error single_char_msg] \<and> set (single_errors_of f) = {single_char_msg})
   \<and> (errors_of f \<noteq> [] \<or> case_errors_of f \<noteq> [] \<or> single_errors_of f \<noteq> [] \<longrightarrow>
        (\<forall>out. Code out \<notin> set (app f)) \<and> (\<forall>a b c d. Download_button a b c d \<notin> set (app f)))
   \<and> set (errors_of f) \<subseteq> presence_msgs
   \<and> set (case_errors_of f) \<subseteq> {first_case_msg, middle_case_msg, last_case_msg}
   \<and> {first_case_msg, middle_case_msg, last_case_msg} \<inter> presence_msgs = {}
   \<and> single_char_msg \<notin> presence_msgs
   \<and> single_char_msg \<notin> {first_case_msg, middle_case_msg, last_case_msg}"
proof -
  have 1: "errors_of f \<noteq> [] \<longrightarrow> app f = map Error (errors_of f)"
    using assms by (simp add: app_unfold)
  have 2: "errors_of f = [] \<and> case_errors_of f \<noteq> [] \<longrightarrow> app f = map Error (case_errors_of f)"
    using assms by (simp add: app_unfold)
  have 3: "errors_of f = [] \<and> case_errors_of f = [] \<and> single_errors_of f \<noteq> [] \<longrightarrow>
        app f = [Error single_char_msg] \<and> set (single_errors_of f) = {single_char_msg}"
  proof
    assume h: "errors_of f = [] \<and> case_errors_of f = [] \<and> single_errors_of f \<noteq> []"
    then have a: "app f = [Error single_char_msg]" using assms by (simp add: app_unfold)
    from h obtain x xs where "single_errors_of f = x # xs"
      by (cases "single_errors_of f") auto
    with single_subset [of f] have "set (single_errors_of f) = {single_char_msg}" by auto
    with a show "app f = [Error single_char_msg] \<and> set (single_errors_of f) = {single_char_msg}"
      by simp
  qed
  have 4: "errors_of f \<noteq> [] \<or> case_errors_of f \<noteq> [] \<or> single_errors_of f \<noteq> [] \<longrightarrow>
        (\<forall>out. Code out \<notin> set (app f)) \<and> (\<forall>a b c d. Download_button a b c d \<notin> set (app f))"
    using assms by (auto simp: app_unfold)
  show ?thesis
    using 1 2 3 4 presence_subset [of f] case_subset [of f] case_not_presence single_not_presence
      single_not_case
    by (intro conjI)
qed

theorem C2_fail_fast_witness:
  "app \<lparr>submitted = True, email_raw = ''a@b'', first_raw = ''john'', middle_raw = [],
         last_raw = ''A''\<rparr>
     = [Error ''Email doesn't look valid (expected something like name@company.com).'']
   \<and> app \<lparr>submitted = True, email_raw = ''a@b.com'', first_raw = ''john'', middle_raw = [],
           last_raw = ''A''\<rparr>
     = [Error ''First name cannot be all lowercase or all uppercase.'']"
proof -
  let ?f = "\<lparr>submitted = True, email_raw = ''a@b'', first_raw = ''john'', middle_raw = [],
              last_raw = ''A''\<rparr>"
  let ?g = "\<lparr>submitted = True, email_raw = ''a@b.com'', first_raw = ''john'', middle_raw = [],
              last_raw = ''A''\<rparr>"
  have sf: "submitted ?f" and sg: "submitted ?g" by simp_all
  have ef: "errors_of ?f = [''Email doesn't look valid (expected something like name@company.com).'']"
    by (simp add: run_defs eval_defs)
  have eg: "errors_of ?g = []" by (simp add: run_defs eval_defs)
  have cg: "case_errors_of ?g = [''First name cannot be all lowercase or all uppercase.'']"
    by (simp add: run_defs eval_defs)
  from C2_fail_fast [OF sf] ef have a: "app ?f = map Error (errors_of ?f)" by simp
  from C2_fail_fast [OF sg] eg cg have b: "app ?g = map Error (case_errors_of ?g)" by simp
  from a b ef cg show ?thesis by simp
qed

text \<open>
  C8. When the single-character category fires, the page shows the single-character
  message exactly once, however many fields triggered it; no page shows it twice.
\<close>

theorem C8_single_message:
  "(submitted f \<and> errors_of f = [] \<and> case_errors_of f = [] \<and> single_errors_of f \<noteq> [] \<longrightarrow>
      app f = [Error single_char_msg]
      \<and> length (filter (\<lambda>e. e = Error single_char_msg) (app f)) = 1)
   \<and> length (filter (\<lambda>e. e = Error single_char_msg) (app f)) \<le> 1"
proof -
  have a: "submitted f \<and> errors_of f = [] \<and> case_errors_of f = [] \<and> single_errors_of f \<noteq> [] \<longrightarrow>
      app f = [Error single_char_msg]
      \<and> length (filter (\<lambda>e. e = Error single_char_msg) (app f)) = 1"
    by (simp add: app_unfold)
  have b: "length (filter (\<lambda>e. e = Error single_char_msg) (app f)) \<le> 1"
  proof -
    have p: "filter (\<lambda>e. e = Error single_char_msg) (map Error (errors_of f)) = []"
      using no_single_in_errors [of f] by (intro filter_map_none) simp
    have c: "filter (\<lambda>e. e = Error single_char_msg) (map Error (case_errors_of f)) = []"
      using no_single_in_case [of f] by (intro filter_map_none) simp
    show ?thesis by (simp add: app_unfold p c success_page_def)
  qed
  from a b show ?thesis by (intro conjI)
qed

theorem C8_single_message_witness:
  "length (single_errors_of \<lparr>submitted = True, email_raw = ''a@b.com'', first_raw = ''A'',
                             middle_raw = ''B'', last_raw = ''C''\<rparr>) = 3
   \<and> app \<lparr>submitted = True, email_raw = ''a@b.com'', first_raw = ''A'', middle_raw = ''B'',
           last_raw = ''C''\<rparr> = [Error single_char_msg]"
proof -
  let ?f = "\<lparr>submitted = True, email_raw = ''a@b.com'', first_raw = ''A'', middle_raw = ''B'',
              last_raw = ''C''\<rparr>"
  have s: "submitted ?f" by simp
  have e: "errors_of ?f = []" by (simp add: run_defs eval_defs)
  have c: "case_errors_of ?f = []" by (simp add: run_defs eval_defs)
  have g: "single_errors_of ?f = [single_char_msg, single_char_msg, single_char_msg]"
    by (simp add: run_defs eval_defs)
  from C8_single_message [of ?f] s e c g have "app ?f = [Error single_char_msg]" by simp
  with g show ?thesis by simp
qed

text \<open>
  C3. For each name field: a normalized value that is one lowercase character raises the
  casing error of that field and never the single-character message; the single-character
  message fires for a field exactly when its normalized value has length 1, is not
  lowercase, and its raw value is not an allowed single initial.
\<close>

theorem C3_precedence:
  "single_errors_of f =
     (if single_char_fires (norm_first f) (first_raw f) then [single_char_msg] else [])
     @ (if single_char_fires (norm_middle f) (middle_raw f) then [single_char_msg] else [])
     @ (if single_char_fires (norm_last f) (last_raw f) then [single_char_msg] else [])
   \<and> (length (norm_first f) = 1 \<and> str_islower (norm_first f) \<longrightarrow>
        first_case_msg \<in> set (case_errors_of f)
        \<and> \<not> single_char_fires (norm_first f) (first_raw f))
   \<and> (length (norm_middle f) = 1 \<and> str_islower (norm_middle f) \<longrightarrow>
        middle_case_msg \<in> set (case_errors_of f)
        \<and> \<not> single_char_fires (norm_middle f) (middle_raw f))
   \<and> (length (norm_last f) = 1 \<and> str_islower (norm_last f) \<longrightarrow>
        last_case_msg \<in> set (case_errors_of f)
        \<and> \<not> single_char_fires (norm_last f) (last_raw f))
   \<and> (submitted f \<and> errors_of f = []
        \<and> (length (norm_first f) = 1 \<and> str_islower (norm_first f)
            \<or> length (norm_middle f) = 1 \<and> str_islower (norm_middle f)
            \<or> length (norm_last f) = 1 \<and> str_islower (norm_last f)) \<longrightarrow>
        app f = map Error (case_errors_of f) \<and> Error single_char_msg \<notin> set (app f))
   \<and> (Error single_char_msg \<in> set (app f) \<longrightarrow>
        app f = [Error single_char_msg]
        \<and> (single_char_fires (norm_first f) (first_raw f)
           \<or> single_char_fires (norm_middle f) (middle_raw f)
           \<or> single_char_fires (norm_last f) (last_raw f)))
   \<and> str_islower [c] = ch_islower c"
proof -
  have 1: "single_errors_of f =
     (if single_char_fires (norm_first f) (first_raw f) then [single_char_msg] else [])
     @ (if single_char_fires (norm_middle f) (middle_raw f) then [single_char_msg] else [])
     @ (if single_char_fires (norm_last f) (last_raw f) then [single_char_msg] else [])"
    by (rule single_errors_fires)
  have 2: "length (norm_first f) = 1 \<and> str_islower (norm_first f) \<longrightarrow>
        first_case_msg \<in> set (case_errors_of f)
        \<and> \<not> single_char_fires (norm_first f) (first_raw f)"
    using case_first fires_not_lower by blast
  have 3: "length (norm_middle f) = 1 \<and> str_islower (norm_middle f) \<longrightarrow>
        middle_case_msg \<in> set (case_errors_of f)
        \<and> \<not> single_char_fires (norm_middle f) (middle_raw f)"
    using case_middle fires_not_lower by blast
  have 4: "length (norm_last f) = 1 \<and> str_islower (norm_last f) \<longrightarrow>
        last_case_msg \<in> set (case_errors_of f)
        \<and> \<not> single_char_fires (norm_last f) (last_raw f)"
    using case_last fires_not_lower by blast
  have 5: "submitted f \<and> errors_of f = []
        \<and> (length (norm_first f) = 1 \<and> str_islower (norm_first f)
            \<or> length (norm_middle f) = 1 \<and> str_islower (norm_middle f)
            \<or> length (norm_last f) = 1 \<and> str_islower (norm_last f)) \<longrightarrow>
        app f = map Error (case_errors_of f) \<and> Error single_char_msg \<notin> set (app f)"
  proof
    assume h: "submitted f \<and> errors_of f = []
        \<and> (length (norm_first f) = 1 \<and> str_islower (norm_first f)
            \<or> length (norm_middle f) = 1 \<and> str_islower (norm_middle f)
            \<or> length (norm_last f) = 1 \<and> str_islower (norm_last f))"
    then obtain m where "m \<in> set (case_errors_of f)"
      using case_first [of f] case_middle [of f] case_last [of f] by blast
    then have "case_errors_of f \<noteq> []" by auto
    with h have a: "app f = map Error (case_errors_of f)" by (simp add: app_unfold)
    have "Error single_char_msg \<notin> set (map Error (case_errors_of f))"
      using no_single_in_case [of f] by simp
    with a show "app f = map Error (case_errors_of f) \<and> Error single_char_msg \<notin> set (app f)"
      by simp
  qed
  have 6: "Error single_char_msg \<in> set (app f) \<longrightarrow>
        app f = [Error single_char_msg]
        \<and> (single_char_fires (norm_first f) (first_raw f)
           \<or> single_char_fires (norm_middle f) (middle_raw f)
           \<or> single_char_fires (norm_last f) (last_raw f))"
  proof
    assume "Error single_char_msg \<in> set (app f)"
    then have s: "submitted f \<and> errors_of f = [] \<and> case_errors_of f = [] \<and> single_errors_of f \<noteq> []"
      by (rule single_shown_fires)
    then have a: "app f = [Error single_char_msg]" by (simp add: app_unfold)
    from s have "single_errors_of f \<noteq> []" by simp
    then have "single_char_fires (norm_first f) (first_raw f)
           \<or> single_char_fires (norm_middle f) (middle_raw f)
           \<or> single_char_fires (norm_last f) (last_raw f)"
      unfolding single_errors_fires by (auto split: if_splits)
    with a show "app f = [Error single_char_msg]
        \<and> (single_char_fires (norm_first f) (first_raw f)
           \<or> single_char_fires (norm_middle f) (middle_raw f)
           \<or> single_char_fires (norm_last f) (last_raw f))" by simp
  qed
  have 7: "str_islower [c] = ch_islower c" by (rule islower_single)
  from 1 2 3 4 5 6 7 show ?thesis by (intro conjI)
qed

theorem C3_precedence_witness:
  "app \<lparr>submitted = True, email_raw = ''a@b.com'', first_raw = ''k '', middle_raw = [],
         last_raw = ''A''\<rparr> = [Error first_case_msg]
   \<and> single_char_fires ''A'' ''A''
   \<and> \<not> single_char_fires ''k'' ''k ''
   \<and> \<not> single_char_fires ''K'' ''K ''"
proof -
  let ?f = "\<lparr>submitted = True, email_raw = ''a@b.com'', first_raw = ''k '', middle_raw = [],
              last_raw = ''A''\<rparr>"
  have s: "submitted ?f" by simp
  have e: "errors_of ?f = []" by (simp add: run_defs eval_defs)
  have n: "norm_first ?f = ''k''" by (simp add: run_defs eval_defs)
  have l: "length (norm_first ?f) = 1 \<and> str_islower (norm_first ?f)"
    by (simp add: n) (simp add: eval_defs)
  have c: "case_errors_of ?f = [first_case_msg]"
    by (simp add: run_defs eval_defs first_case_msg_def)
  from C3_precedence [of ?f] s e l have "app ?f = map Error (case_errors_of ?f)" by blast
  with c have a: "app ?f = [Error first_case_msg]" by simp
  have x: "single_char_fires ''A'' ''A''" "\<not> single_char_fires ''k'' ''k ''"
    "\<not> single_char_fires ''K'' ''K ''"
    by (simp_all add: single_char_fires_def eval_defs)
  from a x show ?thesis by simp
qed

text \<open>
  C10. Presence is checked on the normalized values: a required field whose raw input is
  only whitespace is reported as missing, the run stops at the first stage, and the page
  holds no casing message, no single-character message and no script.
\<close>

theorem C10_whitespace_only_missing:
  assumes "submitted f"
  shows "(list_all isspace (email_raw f) \<longrightarrow>
            ''Email is required.'' \<in> set (errors_of f)
            \<and> ''Email doesn't look valid (expected something like name@company.com).''
                \<notin> set (errors_of f))
   \<and> (list_all isspace (first_raw f) \<longrightarrow> ''First name is required.'' \<in> set (errors_of f))
   \<and> (list_all isspace (last_raw f) \<longrightarrow> ''Last name is required.'' \<in> set (errors_of f))
   \<and> (list_all isspace (email_raw f) \<or> list_all isspace (first_raw f)
        \<or> list_all isspace (last_raw f) \<longrightarrow>
        app f = map Error (errors_of f)
        \<and> (\<forall>m. Error m \<in> set (app f) \<longrightarrow> m \<in> presence_msgs)
        \<and> Error first_case_msg \<notin> set (app f)
        \<and> Error middle_case_msg \<notin> set (app f)
        \<and> Error last_case_msg \<notin> set (app f)
        \<and> Error single_char_msg \<notin> set (app f)
        \<and> (\<forall>out. Code out \<notin> set (app f)))"
proof -
  have 1: "list_all isspace (email_raw f) \<longrightarrow>
            ''Email is required.'' \<in> set (errors_of f)
            \<and> ''Email doesn't look valid (expected something like name@company.com).''
                \<notin> set (errors_of f)"
    by (simp add: errors_of_def presence_errors_def norm_email_def normalize_all_space)
  have 2: "list_all isspace (first_raw f) \<longrightarrow> ''First name is required.'' \<in> set (errors_of f)"
    by (simp add: errors_of_def presence_errors_def norm_first_def normalize_all_space)
  have 3: "list_all isspace (last_raw f) \<longrightarrow> ''Last name is required.'' \<in> set (errors_of f)"
    by (simp add: errors_of_def presence_errors_def norm_last_def normalize_all_space)
  have 4: "list_all isspace (email_raw f) \<or> list_all isspace (first_raw f)
        \<or> list_all isspace (last_raw f) \<longrightarrow>
        app f = map Error (errors_of f)
        \<and> (\<forall>m. Error m \<in> set (app f) \<longrightarrow> m \<in> presence_msgs)
        \<and> Error first_case_msg \<notin> set (app f)
        \<and> Error middle_case_msg \<notin> set (app f)
        \<and> Error last_case_msg \<notin> set (app f)
        \<and> Error single_char_msg \<notin> set (app f)
        \<and> (\<forall>out. Code out \<notin> set (app f))"
  proof
    assume "list_all isspace (email_raw f) \<or> list_all isspace (first_raw f)
        \<or> list_all isspace (last_raw f)"
    with 1 2 3 obtain m where "m \<in> set (errors_of f)" by blast
    then have "errors_of f \<noteq> []" by auto
    with assms have a: "app f = map Error (errors_of f)" by (simp add: app_unfold)
    have b: "\<forall>m. Error m \<in> set (app f) \<longrightarrow> m \<in> presence_msgs"
      using presence_subset [of f] by (auto simp: a)
    have c: "Error first_case_msg \<notin> set (app f)" "Error middle_case_msg \<notin> set (app f)"
      "Error last_case_msg \<notin> set (app f)"
      using no_case_in_errors [of first_case_msg f] no_case_in_errors [of middle_case_msg f]
        no_case_in_errors [of last_case_msg f] by (simp_all add: a)
    have d: "Error single_char_msg \<notin> set (app f)"
      using no_single_in_errors [of f] by (simp add: a)
    have e: "\<forall>out. Code out \<notin> set (app f)" by (auto simp: a)
    from a b c d e
    show "app f = map Error (errors_of f)
        \<and> (\<forall>m. Error m \<in> set (app f) \<longrightarrow> m \<in> presence_msgs)
        \<and> Error first_case_msg \<notin> set (app f)
        \<and> Error middle_case_msg \<notin> set (app f)
        \<and> Error last_case_msg \<notin> set (app f)
        \<and> Error single_char_msg \<notin> set (app f)
        \<and> (\<forall>out. Code out \<notin> set (app f))" by (intro conjI)
  qed
  from 1 2 3 4 show ?thesis by (intro conjI)
qed

theorem C10_whitespace_only_missing_witness:
  "app \<lparr>submitted = True, email_raw = ''a@b.com'', first_raw = ''   '', middle_raw = [],
         last_raw = ''Smith''\<rparr> = [Error ''First name is required.'']"
proof -
  let ?f = "\<lparr>submitted = True, email_raw = ''a@b.com'', first_raw = ''   '', middle_raw = [],
              last_raw = ''Smith''\<rparr>"
  have s: "submitted ?f" by simp
  have w: "list_all isspace (first_raw ?f)" by (simp add: isspace_def ord_def)
  have e: "errors_of ?f = [''First name is required.'']" by (simp add: run_defs eval_defs)
  from C10_whitespace_only_missing [OF s] w have "app ?f = map Error (errors_of ?f)" by blast
  with e show ?thesis by simp
qed

end
